theory Spec2Isabelle
  imports Complex_Main
begin

section \<open>Python strings\<close>

text \<open>
  A Python \<open>str\<close> is a sequence of Unicode code points, and \<open>len\<close> counts code points.
  A string is therefore a list of code-point numbers, not a list of bytes.
\<close>

type_synonym pystr = "nat list"

text \<open>The literals of \<open>app.py\<close> that are not ASCII, by their code points.\<close>

definition urdu_full_stop :: pystr where
  \<comment> \<open>U+06D4, the glyph replaced in \<open>translate_urdu\<close>\<close>
  "urdu_full_stop = [1748]"

definition latin_period :: pystr where
  "latin_period = [46]"

definition word_hai :: pystr where
  \<comment> \<open>U+06C1 U+06D2\<close>
  "word_hai = [1729, 1746]"

definition word_hain :: pystr where
  \<comment> \<open>U+06C1 U+06CC U+06BA\<close>
  "word_hain = [1729, 1740, 1722]"

definition word_mein :: pystr where
  \<comment> \<open>U+0645 U+06CC U+06BA\<close>
  "word_mein = [1605, 1740, 1722]"

definition padded_hai :: pystr where
  \<comment> \<open>the replacement text of \<open>translate_urdu\<close>: space, U+06C1, U+06D2, space\<close>
  "padded_hai = [32, 1729, 1746, 32]"

definition ascii :: "string \<Rightarrow> pystr" where
  "ascii s = map of_char s"

subsection \<open>\<open>str.replace\<close>\<close>

fun startswith :: "'a list \<Rightarrow> 'a list \<Rightarrow> bool" where
  "startswith [] s = True"
| "startswith (p # ps) [] = False"
| "startswith (p # ps) (c # cs) = (p = c \<and> startswith ps cs)"

text \<open>
  \<open>s.replace(old, new)\<close> scans \<open>s\<close> from the left and replaces every non-overlapping
  occurrence of \<open>old\<close>; after a replacement the scan goes on behind the occurrence.
\<close>

function replace_from :: "'a list \<Rightarrow> 'a list \<Rightarrow> 'a list \<Rightarrow> 'a list" where
  "replace_from old new [] = []"
| "replace_from old new (c # cs) =
     (if old \<noteq> [] \<and> startswith old (c # cs)
      then new @ replace_from old new (drop (length old) (c # cs))
      else c # replace_from old new cs)"
  by pat_completeness auto
termination
  by (relation "measure (\<lambda>(old, new, s). length s)") (auto simp: neq_Nil_conv)

text \<open>With an empty \<open>old\<close>, Python puts \<open>new\<close> before every character and at the end.\<close>

definition replace_py :: "'a list \<Rightarrow> 'a list \<Rightarrow> 'a list \<Rightarrow> 'a list" where
  "replace_py s old new =
     (if old = [] then new @ concat (map (\<lambda>c. c # new) s) else replace_from old new s)"

text \<open>
  The loop \<open>for wrong, correct in d.items(): text = text.replace(wrong, correct)\<close>,
  over the items of the dict in insertion order.
\<close>

fun apply_items :: "(pystr \<times> pystr) list \<Rightarrow> pystr \<Rightarrow> pystr" where
  "apply_items [] text = text"
| "apply_items ((wrong, correct) # items) text = apply_items items (replace_py text wrong correct)"

subsection \<open>\<open>str.strip\<close>\<close>

text \<open>
  \<open>str.strip()\<close> without argument removes the characters for which \<open>str.isspace\<close>
  holds, at both ends. These are the code points CPython lists as whitespace.
\<close>

definition isspace :: "nat \<Rightarrow> bool" where
  "isspace c =
     ((9 \<le> c \<and> c \<le> 13) \<or> (28 \<le> c \<and> c \<le> 32) \<or> c = 133 \<or> c = 160 \<or> c = 5760
      \<or> (8192 \<le> c \<and> c \<le> 8202) \<or> c = 8232 \<or> c = 8233 \<or> c = 8239 \<or> c = 8287
      \<or> c = 12288)"

definition strip :: "pystr \<Rightarrow> pystr" where
  "strip s = rev (dropWhile isspace (rev (dropWhile isspace s)))"

definition no_edge_whitespace :: "pystr \<Rightarrow> bool" where
  "no_edge_whitespace t = (case t of [] \<Rightarrow> True | c # cs \<Rightarrow> \<not> isspace c \<and> \<not> isspace (last t))"

section \<open>The correction map of \<open>transcribe_urdu\<close>\<close>

definition corrections :: "(pystr \<times> pystr) list" where
  "corrections = [(word_hai, word_hai), (word_hain, word_hain), (word_mein, word_mein)]"

definition correct :: "pystr \<Rightarrow> pystr" where
  \<comment> \<open>the loop over \<open>corrections.items()\<close> in \<open>transcribe_urdu\<close>\<close>
  "correct text = apply_items corrections text"

section \<open>The pre-processing and the fixes of \<open>translate_urdu\<close>\<close>

definition preprocess :: "pystr \<Rightarrow> pystr" where
  \<comment> \<open>\<open>urdu_text.replace(full stop, ".").replace(hai, " hai ")\<close>\<close>
  "preprocess urdu_text =
     replace_py (replace_py urdu_text urdu_full_stop latin_period) word_hai padded_hai"

definition fixes_py :: "(pystr \<times> pystr) list" where
  "fixes_py = [(ascii ''I am'', ascii ''I''), (ascii ''you are'', ascii ''you''),
               (ascii ''he is'', ascii ''he'')]"

section \<open>Samples and the normalisation of the recording\<close>

text \<open>
  A sample of the \<open>float32\<close> buffer is a finite value, an infinity or NaN. Only the
  special values of IEEE 754 division are modelled: the rounding of a finite quotient
  is left out, and a zero is the positive zero (the divisor of \<open>record_urdu_audio\<close> is
  a maximum of absolute values, so it is never a negative zero).
\<close>

datatype f32 = Fin real | PInf | NInf | NaN

fun np_abs :: "f32 \<Rightarrow> f32" where
  "np_abs (Fin a) = Fin \<bar>a\<bar>"
| "np_abs PInf = PInf"
| "np_abs NInf = PInf"
| "np_abs NaN = NaN"

fun f32_le :: "f32 \<Rightarrow> f32 \<Rightarrow> bool" where
  "f32_le NaN y = False"
| "f32_le x NaN = False"
| "f32_le NInf y = True"
| "f32_le x PInf = True"
| "f32_le (Fin a) (Fin b) = (a \<le> b)"
| "f32_le x y = False"

fun np_maximum :: "f32 \<Rightarrow> f32 \<Rightarrow> f32" where
  \<comment> \<open>the maximum of numpy propagates NaN\<close>
  "np_maximum NaN y = NaN"
| "np_maximum x NaN = NaN"
| "np_maximum x y = (if f32_le x y then y else x)"

fun f32_div :: "f32 \<Rightarrow> f32 \<Rightarrow> f32" where
  "f32_div NaN y = NaN"
| "f32_div x NaN = NaN"
| "f32_div (Fin a) (Fin b) =
     (if b = 0 then (if a = 0 then NaN else if 0 < a then PInf else NInf) else Fin (a / b))"
| "f32_div (Fin a) y = Fin 0"
| "f32_div PInf (Fin b) = (if b < 0 then NInf else PInf)"
| "f32_div NInf (Fin b) = (if b < 0 then PInf else NInf)"
| "f32_div x y = NaN"

section \<open>Exceptions, the world and the external collaborators\<close>

text \<open>
  A value of \<open>exn\<close> is an instance of a subclass of \<open>Exception\<close>, which is what the
  \<open>except Exception\<close> clauses of the program catch: the ones the model raises itself
  and \<open>Error\<close> for those of the libraries. What the interpreter raises outside that
  class (\<open>KeyboardInterrupt\<close>, \<open>SystemExit\<close>) comes from a signal or an exit request and
  not from a statement of the program; it is not modelled.
\<close>

datatype exn = ValueError | KeyError | IndexError | FileNotFoundError | Error string

fun np_max :: "f32 list \<Rightarrow> exn + f32" where
  \<comment> \<open>\<open>np.max\<close> of an array without elements raises \<open>ValueError\<close>\<close>
  "np_max [] = Inl ValueError"
| "np_max (x # xs) = Inr (fold (\<lambda>y m. np_maximum m y) xs x)"

definition normalize_audio :: "f32 list \<Rightarrow> exn + f32 list" where
  \<comment> \<open>\<open>audio / np.max(np.abs(audio))\<close>\<close>
  "normalize_audio audio =
     (case np_max (map np_abs audio) of
        Inl e \<Rightarrow> Inl e
      | Inr peak \<Rightarrow> Inr (map (\<lambda>x. f32_div x peak) audio))"

text \<open>The messages of the \<open>print\<close> calls, by their variable parts.\<close>

datatype msg =
    Speak_clearly int
  | Saved_to pystr
  | Recording_failed exn
  | Transcription_failed exn
  | Translation_failed exn
  | Transcribing
  | Urdu_is pystr
  | Translating
  | English_is pystr
  | Speaking

text \<open>
  The log of a run: the entry of each stage function, each call of a library with the
  arguments that matter, and each message printed.
\<close>

datatype event =
    Call_record_urdu_audio pystr int
  | Call_transcribe_urdu pystr
  | Call_translate_urdu "pystr option"
  | Sd_rec int int
  | Sd_wait
  | Wav_write pystr int "f32 list"
  | From_wav pystr
  | Seg_normalize
  | Seg_export pystr
  | Abspath pystr
  | Whisper_transcribe pystr pystr
  | Tokenizer_encode pystr
  | Translator_generate
  | Tokenizer_decode
  | Tts_say pystr
  | Tts_runAndWait
  | Os_remove pystr
  | Print msg

record world =
  trace :: "event list"
  files :: "pystr set"

text \<open>
  The files on disk are the set \<open>files\<close> of their paths.

  What the libraries do in one run is an environment: the outcome of each call, an
  exception or a value. The types of an audio segment, of the tokenizer's encoding and
  of a generated sequence are left open. \<open>sd_rec\<close> takes the number of frames and the
  sample rate (one channel, \<open>float32\<close>) and gives the buffer as it is once \<open>sd.wait()\<close>
  has returned. \<open>whisper_transcribe\<close> takes the path and the initial prompt (the
  language, the temperature and \<open>fp16\<close> are constants of the call) and gives the result
  dict. Each call is made at most once in a run of \<open>main\<close>, so a function of the
  arguments describes also a model that is not deterministic.

  \<open>console\<close> is the outcome of the \<open>print\<close> in an \<open>except\<close> handler: the message is
  formatted from the exception caught and written to the standard output, and either
  step can raise (\<open>UnicodeEncodeError\<close> when the output cannot encode the text). Nothing
  catches what that \<open>print\<close> raises. The other prints are taken to succeed.
\<close>

record ('seg, 'tok, 'out) env =
  sd_rec :: "int \<Rightarrow> int \<Rightarrow> exn + f32 list"
  sd_wait :: "exn + unit"
  wav_write :: "pystr \<Rightarrow> int \<Rightarrow> f32 list \<Rightarrow> exn + unit"
  from_wav :: "pystr \<Rightarrow> exn + 'seg"
  seg_normalize :: "'seg \<Rightarrow> exn + 'seg"
  seg_export :: "'seg \<Rightarrow> pystr \<Rightarrow> exn + unit"
  abspath :: "pystr \<Rightarrow> exn + pystr"
  whisper_transcribe :: "pystr \<Rightarrow> pystr \<Rightarrow> exn + (string \<rightharpoonup> pystr)"
  tokenizer_encode :: "pystr \<Rightarrow> exn + 'tok"
  translator_generate :: "'tok \<Rightarrow> exn + 'out list"
  tokenizer_decode :: "'out \<Rightarrow> exn + pystr"
  tts_say :: "pystr \<Rightarrow> exn + unit"
  tts_runAndWait :: "exn + unit"
  console :: "msg \<Rightarrow> exn + unit"

subsection \<open>Statements that may raise\<close>

type_synonym 'a py = "world \<Rightarrow> (exn + 'a) \<times> world"

definition py_return :: "'a \<Rightarrow> 'a py" where
  "py_return x = (\<lambda>w. (Inr x, w))"

definition py_bind :: "'a py \<Rightarrow> ('a \<Rightarrow> 'b py) \<Rightarrow> 'b py" where
  "py_bind m f = (\<lambda>w. case m w of (Inl e, w') \<Rightarrow> (Inl e, w') | (Inr x, w') \<Rightarrow> f x w')"

definition py_try :: "'a py \<Rightarrow> (exn \<Rightarrow> 'a py) \<Rightarrow> 'a py" where
  \<comment> \<open>\<open>try: m except Exception as e: h e\<close>\<close>
  "py_try m h = (\<lambda>w. case m w of (Inl e, w') \<Rightarrow> h e w' | (Inr x, w') \<Rightarrow> (Inr x, w'))"

definition logged :: "event \<Rightarrow> world \<Rightarrow> world" where
  "logged ev w = w\<lparr>trace := trace w @ [ev]\<rparr>"

definition emit :: "event \<Rightarrow> unit py" where
  "emit ev = (\<lambda>w. (Inr (), logged ev w))"

definition call :: "event \<Rightarrow> exn + 'a \<Rightarrow> 'a py" where
  \<comment> \<open>a library call: it is logged, and its outcome is the one the environment gives\<close>
  "call ev outcome = (\<lambda>w. (outcome, logged ev w))"

definition py_lift :: "exn + 'a \<Rightarrow> 'a py" where
  \<comment> \<open>a computation of the program itself: nothing is logged\<close>
  "py_lift outcome = (\<lambda>w. (outcome, w))"

definition creates :: "pystr \<Rightarrow> unit py" where
  \<comment> \<open>a successful write leaves the file on disk\<close>
  "creates path = (\<lambda>w. (Inr (), w\<lparr>files := insert path (files w)\<rparr>))"

definition os_remove :: "pystr \<Rightarrow> unit py" where
  \<comment> \<open>\<open>os.remove\<close> deletes a file that exists and raises \<open>FileNotFoundError\<close> otherwise\<close>
  "os_remove path = (\<lambda>w.
     if path \<in> files (logged (Os_remove path) w)
     then (Inr (), (logged (Os_remove path) w)\<lparr>files := files w - {path}\<rparr>)
     else (Inl FileNotFoundError, logged (Os_remove path) w))"

definition dict_get :: "(string \<rightharpoonup> 'v) \<Rightarrow> string \<Rightarrow> exn + 'v" where
  "dict_get d k = (case d k of None \<Rightarrow> Inl KeyError | Some v \<Rightarrow> Inr v)"

definition first_item :: "'a list \<Rightarrow> exn + 'a" where
  \<comment> \<open>\<open>outputs[0]\<close>\<close>
  "first_item xs = (case xs of [] \<Rightarrow> Inl IndexError | x # _ \<Rightarrow> Inr x)"

definition falsy :: "pystr option \<Rightarrow> bool" where
  \<comment> \<open>\<open>not x\<close> for \<open>x\<close> that is \<open>None\<close> or a string\<close>
  "falsy x = (case x of None \<Rightarrow> True | Some s \<Rightarrow> s = [])"

section \<open>The stages\<close>

definition fs :: int where
  "fs = 44100"

definition initial_prompt :: pystr where
  "initial_prompt =
     [1740, 1729, 32, 1575, 1585, 1583, 1608, 32, 1605, 1740, 1722, 32,
      1711, 1601, 1578, 1711, 1608, 32, 1729, 1746]"

definition audio_file :: pystr where
  "audio_file = ascii ''urdu_audio.wav''"

definition record_body :: "('seg, 'tok, 'out) env \<Rightarrow> pystr \<Rightarrow> int \<Rightarrow> bool py" where
  \<comment> \<open>the \<open>try\<close> block of \<open>record_urdu_audio\<close>; the buffer is read after \<open>sd.wait()\<close>\<close>
  "record_body env filename duration =
     py_bind (emit (Print (Speak_clearly duration))) (\<lambda>_.
     py_bind (call (Sd_rec (duration * fs) fs) (sd_rec env (duration * fs) fs)) (\<lambda>audio.
     py_bind (call Sd_wait (sd_wait env)) (\<lambda>_.
     py_bind (py_lift (normalize_audio audio)) (\<lambda>audio.
     py_bind (call (Wav_write filename fs audio) (wav_write env filename fs audio)) (\<lambda>_.
     py_bind (creates filename) (\<lambda>_.
     py_bind (call (From_wav filename) (from_wav env filename)) (\<lambda>audio_segment.
     py_bind (call Seg_normalize (seg_normalize env audio_segment)) (\<lambda>audio_segment.
     py_bind (call (Seg_export filename) (seg_export env audio_segment filename)) (\<lambda>_.
     py_bind (creates filename) (\<lambda>_.
     py_bind (call (Abspath filename) (abspath env filename)) (\<lambda>path.
     py_bind (emit (Print (Saved_to path))) (\<lambda>_.
     py_return True))))))))))))"

definition record_urdu_audio :: "('seg, 'tok, 'out) env \<Rightarrow> pystr \<Rightarrow> int \<Rightarrow> bool py" where
  "record_urdu_audio env filename duration =
     py_bind (emit (Call_record_urdu_audio filename duration)) (\<lambda>_.
     py_try (record_body env filename duration)
       (\<lambda>e. py_bind (call (Print (Recording_failed e)) (console env (Recording_failed e)))
          (\<lambda>_. py_return False)))"

definition transcribe_body :: "('seg, 'tok, 'out) env \<Rightarrow> pystr \<Rightarrow> pystr option py" where
  \<comment> \<open>the \<open>try\<close> block of \<open>transcribe_urdu\<close>\<close>
  "transcribe_body env audio_path =
     py_bind (call (Whisper_transcribe audio_path initial_prompt)
                (whisper_transcribe env audio_path initial_prompt)) (\<lambda>result.
     py_bind (py_lift (dict_get result ''text'')) (\<lambda>text.
     py_return (Some (correct (strip text)))))"

definition transcribe_urdu :: "('seg, 'tok, 'out) env \<Rightarrow> pystr \<Rightarrow> pystr option py" where
  "transcribe_urdu env audio_path =
     py_bind (emit (Call_transcribe_urdu audio_path)) (\<lambda>_.
     py_try (transcribe_body env audio_path)
       (\<lambda>e. py_bind (call (Print (Transcription_failed e)) (console env (Transcription_failed e)))
          (\<lambda>_. py_return None)))"

definition translate_body :: "('seg, 'tok, 'out) env \<Rightarrow> pystr option \<Rightarrow> pystr option py" where
  \<comment> \<open>the \<open>try\<close> block of \<open>translate_urdu\<close>; its argument is \<open>None\<close> or a string\<close>
  "translate_body env urdu_text =
     (case urdu_text of
        None \<Rightarrow> py_return None
      | Some s \<Rightarrow>
          if s = [] \<or> length s < 3 then py_return None
          else
            py_bind (call (Tokenizer_encode (preprocess s))
                       (tokenizer_encode env (preprocess s))) (\<lambda>inputs.
            py_bind (call Translator_generate (translator_generate env inputs)) (\<lambda>outputs.
            py_bind (py_lift (first_item outputs)) (\<lambda>output.
            py_bind (call Tokenizer_decode (tokenizer_decode env output)) (\<lambda>english.
            py_return (Some (apply_items fixes_py english)))))))"

definition translate_urdu :: "('seg, 'tok, 'out) env \<Rightarrow> pystr option \<Rightarrow> pystr option py" where
  "translate_urdu env urdu_text =
     py_bind (emit (Call_translate_urdu urdu_text)) (\<lambda>_.
     py_try (translate_body env urdu_text)
       (\<lambda>e. py_bind (call (Print (Translation_failed e)) (console env (Translation_failed e)))
          (\<lambda>_. py_return None)))"

section \<open>The main pipeline\<close>

definition speak_and_cleanup :: "('seg, 'tok, 'out) env \<Rightarrow> pystr \<Rightarrow> unit py" where
  \<comment> \<open>the end of \<open>main\<close>, from \<open>print(English)\<close> on; nothing catches an exception here\<close>
  "speak_and_cleanup env english_text =
     py_bind (emit (Print (English_is english_text))) (\<lambda>_.
     py_bind (emit (Print Speaking)) (\<lambda>_.
     py_bind (call (Tts_say english_text) (tts_say env english_text)) (\<lambda>_.
     py_bind (call Tts_runAndWait (tts_runAndWait env)) (\<lambda>_.
     os_remove audio_file))))"

definition main :: "('seg, 'tok, 'out) env \<Rightarrow> unit py" where
  "main env =
     py_bind (record_urdu_audio env audio_file 7) (\<lambda>recorded.
     if \<not> recorded then py_return ()
     else
       py_bind (emit (Print Transcribing)) (\<lambda>_.
       py_bind (transcribe_urdu env audio_file) (\<lambda>urdu_text.
       if falsy urdu_text then py_return ()
       else
         py_bind (emit (Print (Urdu_is (the urdu_text)))) (\<lambda>_.
         py_bind (emit (Print Translating)) (\<lambda>_.
         py_bind (translate_urdu env urdu_text) (\<lambda>english_text.
         if falsy english_text then py_return ()
         else speak_and_cleanup env (the english_text)))))))"

text \<open>The stage calls of a log, and a world before anything has happened.\<close>

fun is_stage_call :: "event \<Rightarrow> bool" where
  "is_stage_call (Call_record_urdu_audio f d) = True"
| "is_stage_call (Call_transcribe_urdu p) = True"
| "is_stage_call (Call_translate_urdu t) = True"
| "is_stage_call (Tts_say t) = True"
| "is_stage_call Tts_runAndWait = True"
| "is_stage_call (Os_remove p) = True"
| "is_stage_call ev = False"

definition stage_calls :: "event list \<Rightarrow> event list" where
  "stage_calls evs = filter is_stage_call evs"

definition blank :: world where
  "blank = \<lparr>trace = [], files = {}\<rparr>"

text \<open>A world before a run, with the given files on disk.\<close>

definition fresh :: "pystr set \<Rightarrow> world" where
  "fresh disk = \<lparr>trace = [], files = disk\<rparr>"

text \<open>
  Every stage of the pipeline completes: the recording returns \<open>True\<close>, the transcript
  and the translation are not empty, and the speech engine raises nothing. What a stage
  returns does not depend on the world it starts in, so each is run from \<open>blank\<close>.
\<close>

definition all_stages_succeed :: "('seg, 'tok, 'out) env \<Rightarrow> bool" where
  "all_stages_succeed env =
     (fst (record_urdu_audio env audio_file 7 blank) = Inr True \<and>
      (case fst (transcribe_urdu env audio_file blank) of
         Inr (Some u) \<Rightarrow>
           u \<noteq> [] \<and>
           (case fst (translate_urdu env (Some u) blank) of
              Inr (Some e) \<Rightarrow> e \<noteq> [] \<and> tts_say env e = Inr () \<and> tts_runAndWait env = Inr ()
            | _ \<Rightarrow> False)
       | _ \<Rightarrow> False))"

section \<open>Properties of runs\<close>

text \<open>
  \<open>steady R m\<close>: every run of \<open>m\<close> relates the world before to the world after by
  \<open>R\<close>. \<open>world_blind m\<close>: what \<open>m\<close> returns or raises does not depend on the world
  it starts in.
\<close>

definition steady :: "(world \<Rightarrow> world \<Rightarrow> bool) \<Rightarrow> 'a py \<Rightarrow> bool" where
  "steady R m = (\<forall>w. R w (snd (m w)))"

definition world_blind :: "'a py \<Rightarrow> bool" where
  "world_blind m = (\<forall>w w'. fst (m w) = fst (m w'))"

definition same_stage_calls :: "world \<Rightarrow> world \<Rightarrow> bool" where
  "same_stage_calls w w' = (stage_calls (trace w') = stage_calls (trace w))"

definition same_files :: "world \<Rightarrow> world \<Rightarrow> bool" where
  "same_files w w' = (files w' = files w)"

definition more_files :: "world \<Rightarrow> world \<Rightarrow> bool" where
  "more_files w w' = (files w \<subseteq> files w')"

text \<open>
  \<open>ensures Q m\<close>: whenever \<open>m\<close> returns a value, \<open>Q\<close> holds of the value and of the
  world it leaves.
\<close>

definition ensures :: "('a \<Rightarrow> world \<Rightarrow> bool) \<Rightarrow> 'a py \<Rightarrow> bool" where
  "ensures Q m = (\<forall>w y w'. m w = (Inr y, w') \<longrightarrow> Q y w')"

section \<open>Some environments\<close>

text \<open>
  A run in which every library call succeeds, and runs in which one of them fails or
  gives an empty result.
\<close>

definition env_ok :: "(unit, unit, unit) env" where
  "env_ok = \<lparr>
     sd_rec = (\<lambda>frames rate. Inr [Fin (1 / 2), Fin (- 1 / 4), Fin 0]),
     sd_wait = Inr (),
     wav_write = (\<lambda>path rate data. Inr ()),
     from_wav = (\<lambda>path. Inr ()),
     seg_normalize = (\<lambda>seg. Inr ()),
     seg_export = (\<lambda>seg path. Inr ()),
     abspath = (\<lambda>path. Inr (ascii ''/tmp/'' @ path)),
     whisper_transcribe = (\<lambda>path prompt.
       Inr [''text'' \<mapsto> [32, 1605, 1740, 1722, 32, 1729, 1746, 1748, 10]]),
     tokenizer_encode = (\<lambda>s. Inr ()),
     translator_generate = (\<lambda>inputs. Inr [()]),
     tokenizer_decode = (\<lambda>output. Inr (ascii ''I am here.'')),
     tts_say = (\<lambda>s. Inr ()),
     tts_runAndWait = Inr (),
     console = (\<lambda>message. Inr ())\<rparr>"

definition env_no_microphone :: "(unit, unit, unit) env" where
  "env_no_microphone = env_ok\<lparr>sd_rec := (\<lambda>frames rate. Inl (Error ''PortAudioError''))\<rparr>"

definition env_console_fails :: "(unit, unit, unit) env" where
  \<comment> \<open>no capture device, and a standard output that cannot encode the failure message\<close>
  "env_console_fails =
     env_no_microphone\<lparr>console := (\<lambda>message. Inl (Error ''UnicodeEncodeError''))\<rparr>"

definition env_silence :: "(unit, unit, unit) env" where
  "env_silence = env_ok\<lparr>sd_rec := (\<lambda>frames rate. Inr [Fin 0, Fin 0, Fin 0])\<rparr>"

definition env_whisper_fails :: "(unit, unit, unit) env" where
  "env_whisper_fails = env_ok\<lparr>whisper_transcribe := (\<lambda>path prompt. Inl (Error ''RuntimeError''))\<rparr>"

definition env_blank_speech :: "(unit, unit, unit) env" where
  "env_blank_speech = env_ok\<lparr>whisper_transcribe := (\<lambda>path prompt. Inr [''text'' \<mapsto> [32, 10]])\<rparr>"

definition env_translator_fails :: "(unit, unit, unit) env" where
  "env_translator_fails = env_ok\<lparr>translator_generate := (\<lambda>inputs. Inl (Error ''RuntimeError''))\<rparr>"

definition env_empty_translation :: "(unit, unit, unit) env" where
  "env_empty_translation = env_ok\<lparr>tokenizer_decode := (\<lambda>output. Inr [])\<rparr>"

definition env_speaker_fails :: "(unit, unit, unit) env" where
  "env_speaker_fails = env_ok\<lparr>tts_runAndWait := Inl (Error ''RuntimeError'')\<rparr>"

section \<open>Replacing a text by itself\<close>

lemma startswith_append: "startswith p s \<Longrightarrow> p @ drop (length p) s = s"
  by (induction p s rule: startswith.induct) auto

lemma replace_from_eq: "new = old \<Longrightarrow> replace_from old new s = s"
proof (induction old new s rule: replace_from.induct)
  case (1 old new)
  show ?case by simp
next
  case (2 old new c cs)
  show ?case
  proof (cases "old \<noteq> [] \<and> startswith old (c # cs)")
    case True
    then have "replace_from old new (drop (length old) (c # cs)) = drop (length old) (c # cs)"
      using "2.IH"(1) "2.prems" by simp
    with True "2.prems" show ?thesis
      using startswith_append [of old "c # cs"] by simp
  next
    case False
    then show ?thesis using "2.IH"(2) "2.prems" by auto
  qed
qed

lemma replace_from_same: "replace_from old old s = s"
  by (rule replace_from_eq) simp

lemma replace_py_same: "old \<noteq> [] \<Longrightarrow> replace_py s old old = s"
  by (simp add: replace_py_def replace_from_same)

lemma correct_id: "correct t = t"
  by (simp add: correct_def corrections_def replace_py_same word_hai_def word_hain_def
      word_mein_def)


text \<open>
  C2: every key of the correction map of \<open>transcribe_urdu\<close> equals its replacement,
  and applying the corrections to any string leaves the string as it is.
\<close>

theorem corrections_are_identity:
  "map fst corrections = map snd corrections \<and> correct t = t"
  by (simp add: correct_id) (simp add: corrections_def)

text \<open>
  C3: for every string \<open>t\<close>, applying the correction map twice gives what applying it
  once gives.
\<close>

theorem correct_idempotent: "correct (correct t) = correct t"
  by (simp add: correct_id)

section \<open>Runs of the stages\<close>

lemma run_simps:
  "py_return x w = (Inr x, w)"
  "py_bind m f w = (case m w of (Inl e, w') \<Rightarrow> (Inl e, w') | (Inr x, w') \<Rightarrow> f x w')"
  "py_try m h w = (case m w of (Inl e, w') \<Rightarrow> h e w' | (Inr x, w') \<Rightarrow> (Inr x, w'))"
  "emit ev w = (Inr (), logged ev w)"
  "call ev r w = (r, logged ev w)"
  "py_lift r w = (r, w)"
  "creates p w = (Inr (), w\<lparr>files := insert p (files w)\<rparr>)"
  by (simp_all add: py_return_def py_bind_def py_try_def emit_def call_def py_lift_def creates_def)

lemma logged_simps:
  "trace (logged ev w) = trace w @ [ev]"
  "files (logged ev w) = files w"
  by (simp_all add: logged_def)

lemma stage_calls_simps:
  "stage_calls [] = []"
  "stage_calls (xs @ ys) = stage_calls xs @ stage_calls ys"
  "stage_calls (ev # evs) = (if is_stage_call ev then ev # stage_calls evs else stage_calls evs)"
  by (simp_all add: stage_calls_def)

lemma steady_return: "reflp R \<Longrightarrow> steady R (py_return x)"
  by (simp add: steady_def run_simps reflp_def)

lemma steady_lift: "reflp R \<Longrightarrow> steady R (py_lift r)"
  by (simp add: steady_def run_simps reflp_def)

lemma steady_bind:
  assumes "transp R" and "steady R m" and "\<And>x. steady R (f x)"
  shows "steady R (py_bind m f)"
proof -
  have "R w (snd (py_bind m f w))" for w
  proof (cases "m w")
    case (Pair r w1)
    have 1: "R w w1" using assms(2) Pair by (auto simp: steady_def dest: spec [of _ w])
    show ?thesis
    proof (cases r)
      case (Inl e)
      with Pair 1 show ?thesis by (simp add: run_simps)
    next
      case (Inr x)
      have "R w1 (snd (f x w1))" using assms(3) by (simp add: steady_def)
      with 1 assms(1) have "R w (snd (f x w1))" by (blast dest: transpD)
      with Pair Inr show ?thesis by (simp add: run_simps)
    qed
  qed
  then show ?thesis by (simp add: steady_def)
qed

lemma steady_try:
  assumes "transp R" and "steady R m" and "\<And>e. steady R (h e)"
  shows "steady R (py_try m h)"
proof -
  have "R w (snd (py_try m h w))" for w
  proof (cases "m w")
    case (Pair r w1)
    have 1: "R w w1" using assms(2) Pair by (auto simp: steady_def dest: spec [of _ w])
    show ?thesis
    proof (cases r)
      case (Inr x)
      with Pair 1 show ?thesis by (simp add: run_simps)
    next
      case (Inl e)
      have "R w1 (snd (h e w1))" using assms(3) by (simp add: steady_def)
      with 1 assms(1) have "R w (snd (h e w1))" by (blast dest: transpD)
      with Pair Inl show ?thesis by (simp add: run_simps)
    qed
  qed
  then show ?thesis by (simp add: steady_def)
qed

lemma orders:
  "reflp same_stage_calls" "transp same_stage_calls"
  "reflp same_files" "transp same_files"
  "reflp more_files" "transp more_files"
  by (auto simp: reflp_def transp_def same_stage_calls_def same_files_def more_files_def)

lemma steady_stage_calls:
  "\<not> is_stage_call ev \<Longrightarrow> steady same_stage_calls (emit ev)"
  "\<not> is_stage_call ev \<Longrightarrow> steady same_stage_calls (call ev r)"
  "steady same_stage_calls (creates p)"
  by (simp_all add: steady_def same_stage_calls_def run_simps logged_simps stage_calls_simps)

lemma steady_files:
  "steady same_files (emit ev)"
  "steady same_files (call ev r)"
  "steady more_files (emit ev)"
  "steady more_files (call ev r)"
  "steady more_files (creates p)"
  by (auto simp add: steady_def same_files_def more_files_def run_simps logged_simps)

lemmas steady_intros = steady_bind steady_try steady_return steady_lift orders steady_stage_calls steady_files

lemma record_body_calls: "steady same_stage_calls (record_body env f d)"
  unfolding record_body_def by (intro steady_intros) simp_all

lemma record_body_files: "steady more_files (record_body env f d)"
  unfolding record_body_def by (intro steady_intros)

lemma transcribe_body_calls: "steady same_stage_calls (transcribe_body env p)"
  unfolding transcribe_body_def by (intro steady_intros) simp_all

lemma transcribe_body_files: "steady same_files (transcribe_body env p)"
  unfolding transcribe_body_def by (intro steady_intros)

lemma translate_body_calls: "steady same_stage_calls (translate_body env t)"
  unfolding translate_body_def by (auto split: option.splits intro!: steady_intros)

lemma translate_body_files: "steady same_files (translate_body env t)"
  unfolding translate_body_def by (auto split: option.splits intro!: steady_intros)


lemma blind_basic:
  "world_blind (py_return x)" "world_blind (py_lift r)" "world_blind (emit ev)"
  "world_blind (call ev r)" "world_blind (creates p)"
  by (simp_all add: world_blind_def run_simps)

lemma blind_bind:
  assumes "world_blind m" and "\<And>x. world_blind (f x)"
  shows "world_blind (py_bind m f)"
proof -
  have "fst (py_bind m f w) = fst (py_bind m f w')" for w w'
  proof -
    obtain r w1 where 1: "m w = (r, w1)" by (cases "m w")
    obtain r' w1' where 2: "m w' = (r', w1')" by (cases "m w'")
    have 3: "r' = r"
      using assms(1) [unfolded world_blind_def, rule_format, of w w'] 1 2 by simp
    show ?thesis
    proof (cases r)
      case (Inl e)
      with 1 2 3 show ?thesis by (simp add: run_simps)
    next
      case (Inr x)
      have "fst (f x w1) = fst (f x w1')" using assms(2) by (simp add: world_blind_def)
      with 1 2 3 Inr show ?thesis by (simp add: run_simps)
    qed
  qed
  then show ?thesis by (simp add: world_blind_def)
qed

lemma blind_try:
  assumes "world_blind m" and "\<And>e. world_blind (h e)"
  shows "world_blind (py_try m h)"
proof -
  have "fst (py_try m h w) = fst (py_try m h w')" for w w'
  proof -
    obtain r w1 where 1: "m w = (r, w1)" by (cases "m w")
    obtain r' w1' where 2: "m w' = (r', w1')" by (cases "m w'")
    have 3: "r' = r"
      using assms(1) [unfolded world_blind_def, rule_format, of w w'] 1 2 by simp
    show ?thesis
    proof (cases r)
      case (Inr x)
      with 1 2 3 show ?thesis by (simp add: run_simps)
    next
      case (Inl e)
      have "fst (h e w1) = fst (h e w1')" using assms(2) by (simp add: world_blind_def)
      with 1 2 3 Inl show ?thesis by (simp add: run_simps)
    qed
  qed
  then show ?thesis by (simp add: world_blind_def)
qed

lemmas blind_intros = blind_bind blind_try blind_basic

lemma record_blind: "world_blind (record_urdu_audio env f d)"
  unfolding record_urdu_audio_def record_body_def by (intro blind_intros)

lemma transcribe_blind: "world_blind (transcribe_urdu env p)"
  unfolding transcribe_urdu_def transcribe_body_def by (intro blind_intros)

lemma translate_blind: "world_blind (translate_urdu env t)"
  unfolding translate_urdu_def translate_body_def
  by (auto split: option.splits intro!: blind_intros)

text \<open>
  A stage: its entry is logged, then its \<open>try\<close> block runs; the handler prints a message
  and returns a value, unless the print raises.
\<close>

lemma stage_run:
  "py_bind (emit c)
     (\<lambda>_. py_try body (\<lambda>e. py_bind (call (ev e) (out e)) (\<lambda>_. py_return v))) w =
     (case body (logged c w) of
        (Inl e, w') \<Rightarrow>
          (case out e of
             Inl e' \<Rightarrow> (Inl e', logged (ev e) w')
           | Inr u \<Rightarrow> (Inr v, logged (ev e) w'))
      | (Inr x, w') \<Rightarrow> (Inr x, w'))"
proof (cases "body (logged c w)")
  case (Pair r w1)
  then show ?thesis by (cases r) (simp_all add: run_simps split: sum.splits)
qed

lemma stage_calls_of_stage:
  assumes "steady same_stage_calls body" and "\<And>e. \<not> is_stage_call (ev e)" and "is_stage_call c"
  shows "stage_calls (trace (snd (py_bind (emit c)
           (\<lambda>_. py_try body (\<lambda>e. py_bind (call (ev e) (out e)) (\<lambda>_. py_return v))) w))) =
         stage_calls (trace w) @ [c]"
proof (cases "body (logged c w)")
  case (Pair r w1)
  have "stage_calls (trace (snd (body (logged c w)))) = stage_calls (trace (logged c w))"
    using assms(1) by (simp add: steady_def same_stage_calls_def)
  with Pair have "stage_calls (trace w1) = stage_calls (trace w) @ [c]"
    using assms(3) by (simp add: logged_simps stage_calls_simps)
  with Pair show ?thesis using assms(2)
    by (cases r) (simp_all add: stage_run logged_simps stage_calls_simps split: sum.splits)
qed

lemma record_calls:
  "stage_calls (trace (snd (record_urdu_audio env f d w))) =
     stage_calls (trace w) @ [Call_record_urdu_audio f d]"
  unfolding record_urdu_audio_def
  by (rule stage_calls_of_stage) (simp_all add: record_body_calls)

lemma transcribe_calls:
  "stage_calls (trace (snd (transcribe_urdu env p w))) =
     stage_calls (trace w) @ [Call_transcribe_urdu p]"
  unfolding transcribe_urdu_def
  by (rule stage_calls_of_stage) (simp_all add: transcribe_body_calls)

lemma translate_calls:
  "stage_calls (trace (snd (translate_urdu env t w))) =
     stage_calls (trace w) @ [Call_translate_urdu t]"
  unfolding translate_urdu_def
  by (rule stage_calls_of_stage) (simp_all add: translate_body_calls)

lemma files_of_stage:
  assumes "steady same_files body"
  shows "files (snd (py_bind (emit c)
           (\<lambda>_. py_try body (\<lambda>e. py_bind (call (ev e) (out e)) (\<lambda>_. py_return v))) w)) =
         files w"
proof (cases "body (logged c w)")
  case (Pair r w1)
  have "files (snd (body (logged c w))) = files (logged c w)"
    using assms(1) by (simp add: steady_def same_files_def)
  with Pair have "files w1 = files w" by (simp add: logged_simps)
  with Pair show ?thesis
    by (cases r) (simp_all add: stage_run logged_simps split: sum.splits)
qed

lemma transcribe_files: "files (snd (transcribe_urdu env p w)) = files w"
  unfolding transcribe_urdu_def by (rule files_of_stage) (rule transcribe_body_files)

lemma translate_files: "files (snd (translate_urdu env t w)) = files w"
  unfolding translate_urdu_def by (rule files_of_stage) (rule translate_body_files)

lemma ensures_bind:
  assumes "\<And>x. ensures Q (f x)"
  shows "ensures Q (py_bind m f)"
proof -
  have "Q y w'" if "py_bind m f w = (Inr y, w')" for w y w'
  proof (cases "m w")
    case (Pair r w1)
    show ?thesis
    proof (cases r)
      case (Inl e)
      with Pair that show ?thesis by (simp add: run_simps)
    next
      case (Inr x)
      with Pair that have "f x w1 = (Inr y, w')" by (simp add: run_simps)
      with assms show ?thesis by (auto simp: ensures_def)
    qed
  qed
  then show ?thesis by (auto simp: ensures_def)
qed

lemma ensures_return: "(\<And>w. Q x w) \<Longrightarrow> ensures Q (py_return x)"
  by (simp add: ensures_def run_simps)

lemma ensures_after_creates:
  assumes "\<And>x. steady more_files (g x)"
  shows "ensures (\<lambda>y w. p \<in> files w) (py_bind (creates p) g)"
proof -
  have "p \<in> files w'" if "py_bind (creates p) g w = (Inr y, w')" for w y w'
  proof -
    define w1 where "w1 = w\<lparr>files := insert p (files w)\<rparr>"
    have "g () w1 = (Inr y, w')" using that by (simp add: run_simps w1_def)
    moreover have "files w1 \<subseteq> files (snd (g () w1))"
      using assms [of "()"] by (simp add: steady_def more_files_def)
    ultimately show ?thesis by (auto simp: w1_def)
  qed
  then show ?thesis by (auto simp: ensures_def)
qed

lemma record_body_True: "ensures (\<lambda>b w. b) (record_body env f d)"
  unfolding record_body_def by (intro ensures_bind ensures_return) simp

lemma record_body_file: "ensures (\<lambda>b w. f \<in> files w) (record_body env f d)"
  unfolding record_body_def
  apply (rule ensures_bind, rule ensures_bind, rule ensures_bind, rule ensures_bind,
      rule ensures_bind)
  apply (rule ensures_after_creates)
  apply (intro steady_intros)
  done

text \<open>The equations that evaluate a run in a given environment.\<close>

lemmas eval_defs =
  main_def record_urdu_audio_def record_body_def transcribe_urdu_def transcribe_body_def
  translate_urdu_def translate_body_def speak_and_cleanup_def os_remove_def run_simps logged_def
  normalize_audio_def dict_get_def first_item_def falsy_def strip_def isspace_def correct_id
  preprocess_def replace_py_def urdu_full_stop_def latin_period_def word_hai_def padded_hai_def
  fixes_py_def ascii_def audio_file_def fs_def initial_prompt_def stage_calls_def blank_def
  fresh_def env_ok_def env_no_microphone_def env_console_fails_def env_silence_def
  env_whisper_fails_def env_blank_speech_def env_translator_fails_def env_empty_translation_def
  env_speaker_fails_def

section \<open>The transcript\<close>

lemma last_dropWhile_nonempty: "dropWhile P xs \<noteq> [] \<Longrightarrow> last (dropWhile P xs) = last xs"
  by (induction xs) (auto split: if_splits)

lemma strip_Nil_or_edges:
  "strip s = [] \<or> (\<not> isspace (hd (strip s)) \<and> \<not> isspace (last (strip s)))"
proof (cases "strip s = []")
  case True
  then show ?thesis by simp
next
  case False
  define ys where "ys = dropWhile isspace s"
  define zs where "zs = dropWhile isspace (rev ys)"
  have s: "strip s = rev zs" by (simp add: strip_def ys_def zs_def)
  with False have zs: "zs \<noteq> []" by simp
  then have ys: "ys \<noteq> []" by (auto simp: zs_def)
  have "last (strip s) = hd zs" using zs s by (simp add: last_rev)
  moreover have "\<not> isspace (hd zs)" using zs unfolding zs_def by (rule hd_dropWhile)
  moreover have "hd (strip s) = last zs" using zs s by (simp add: hd_rev)
  moreover have "last zs = last (rev ys)" using zs unfolding zs_def by (rule last_dropWhile_nonempty)
  moreover have "last (rev ys) = hd ys" using ys by (simp add: last_rev)
  moreover have "\<not> isspace (hd ys)" using ys unfolding ys_def by (rule hd_dropWhile)
  ultimately show ?thesis by simp
qed

lemma strip_no_edge: "no_edge_whitespace (strip s)"
  using strip_Nil_or_edges [of s] by (cases "strip s") (auto simp: no_edge_whitespace_def)

lemma strip_fixed: "no_edge_whitespace t \<Longrightarrow> strip t = t"
proof (cases t)
  case Nil
  then show ?thesis by (simp add: strip_def)
next
  case (Cons c cs)
  assume "no_edge_whitespace t"
  with Cons have 1: "\<not> isspace c" and 2: "\<not> isspace (last t)"
    by (simp_all add: no_edge_whitespace_def)
  from 1 Cons have 3: "dropWhile isspace t = t" by simp
  have "hd (rev t) = last t" using Cons by (simp add: hd_rev)
  with 2 have "dropWhile isspace (rev t) = rev t"
    by (simp add: dropWhile_eq_self_iff)
  with 3 show ?thesis by (simp add: strip_def)
qed

lemma transcribe_body_value:
  "fst (transcribe_body env p w) = Inr x \<Longrightarrow> \<exists>raw. x = Some (strip raw)"
  by (auto simp: transcribe_body_def run_simps correct_id split: sum.splits prod.splits)

text \<open>
  C4: for every input and every behaviour of the recognition model, \<open>transcribe_urdu\<close>
  returns \<open>None\<close> or a string without leading or trailing whitespace, which \<open>strip\<close>
  therefore leaves as it is. It returns in every run but one: when the \<open>try\<close> block
  raises and the print of the handler raises too, that second exception reaches the
  caller and nothing is returned.
\<close>

theorem transcribe_stripped:
  "(\<exists>r. fst (transcribe_urdu env audio_path w) = Inr r \<and>
      (case r of None \<Rightarrow> True | Some t \<Rightarrow> no_edge_whitespace t \<and> strip t = t)) \<or>
   (\<exists>e0 e. fst (transcribe_body env audio_path (logged (Call_transcribe_urdu audio_path) w)) =
        Inl e0 \<and>
      console env (Transcription_failed e0) = Inl e \<and>
      fst (transcribe_urdu env audio_path w) = Inl e)"
proof (cases "transcribe_body env audio_path (logged (Call_transcribe_urdu audio_path) w)")
  case (Pair r w1)
  show ?thesis
  proof (cases r)
    case (Inl e0)
    with Pair show ?thesis
      by (cases "console env (Transcription_failed e0)")
        (simp_all add: transcribe_urdu_def stage_run)
  next
    case (Inr x)
    with Pair obtain raw where "x = Some (strip raw)"
      using transcribe_body_value [of env audio_path "logged (Call_transcribe_urdu audio_path) w" x]
      by auto
    with Pair Inr show ?thesis
      by (simp add: transcribe_urdu_def stage_run strip_no_edge strip_fixed)
  qed
qed

text \<open>Two runs: a transcript with whitespace around it, and a model that raises.\<close>

theorem transcribe_stripped_witness:
  "fst (transcribe_urdu env_ok audio_file blank) =
     Inr (Some [1605, 1740, 1722, 32, 1729, 1746, 1748]) \<and>
   no_edge_whitespace [1605, 1740, 1722, 32, 1729, 1746, 1748] \<and>
   fst (transcribe_urdu env_whisper_fails audio_file blank) = Inr None"
proof -
  have 1: "fst (transcribe_urdu env_ok audio_file blank) =
     Inr (Some [1605, 1740, 1722, 32, 1729, 1746, 1748])"
    and 2: "fst (transcribe_urdu env_whisper_fails audio_file blank) = Inr None"
    by (simp_all add: eval_defs)
  show ?thesis
    using transcribe_stripped [of env_ok audio_file blank] 1 2 by auto
qed

section \<open>The recording\<close>

text \<open>
  C7, as the claim states it, fails: without a capture device and with a standard
  output that cannot encode the failure message, the handler's own \<open>print\<close> raises and
  \<open>record_urdu_audio\<close> raises to its caller.
\<close>

theorem record_raises_when_print_fails:
  "fst (record_urdu_audio env_console_fails audio_file 7 blank) = Inl (Error ''UnicodeEncodeError'')"
  by (simp add: eval_defs)

text \<open>
  C7, amended: \<open>record_urdu_audio\<close> raises to its caller only what the \<open>print\<close> of its
  handler raises. When a step of its \<open>try\<close> block raises \<open>e\<close> (capture, normalisation or
  file I/O), it prints the failure message for \<open>e\<close> and, that print succeeding, returns
  \<open>False\<close>; when no step raises, it returns \<open>True\<close>.
\<close>

theorem record_raises_only_from_handler_print:
  "(case record_body env filename duration (logged (Call_record_urdu_audio filename duration) w) of
      (Inl e, w') \<Rightarrow>
        (case console env (Recording_failed e) of
           Inl e' \<Rightarrow>
             record_urdu_audio env filename duration w =
               (Inl e', logged (Print (Recording_failed e)) w')
         | Inr u \<Rightarrow>
             record_urdu_audio env filename duration w =
               (Inr False, logged (Print (Recording_failed e)) w'))
    | (Inr b, w') \<Rightarrow> b \<and> record_urdu_audio env filename duration w = (Inr True, w'))"
proof (cases "record_body env filename duration
    (logged (Call_record_urdu_audio filename duration) w)")
  case (Pair r w1)
  show ?thesis
  proof (cases r)
    case (Inl e)
    with Pair show ?thesis
      by (cases "console env (Recording_failed e)") (simp_all add: record_urdu_audio_def stage_run)
  next
    case (Inr b)
    with Pair have b using record_body_True [of env filename duration]
      by (auto simp: ensures_def)
    with Pair Inr show ?thesis by (simp add: record_urdu_audio_def stage_run)
  qed
qed

text \<open>Two runs: no capture device, and a recording that succeeds.\<close>

theorem record_raises_only_from_handler_print_witness:
  "record_urdu_audio env_no_microphone audio_file 7 blank =
     (Inr False,
      \<lparr>trace = [Call_record_urdu_audio audio_file 7, Print (Speak_clearly 7), Sd_rec (7 * fs) fs,
                Print (Recording_failed (Error ''PortAudioError''))],
       files = {}\<rparr>) \<and>
   fst (record_urdu_audio env_ok audio_file 7 blank) = Inr True"
proof -
  have 1: "record_body env_no_microphone audio_file 7
      (logged (Call_record_urdu_audio audio_file 7) blank) =
        (Inl (Error ''PortAudioError''),
         \<lparr>trace = [Call_record_urdu_audio audio_file 7, Print (Speak_clearly 7), Sd_rec (7 * fs) fs],
          files = {}\<rparr>)"
    by (simp add: eval_defs)
  have 2: "console env_no_microphone (Recording_failed (Error ''PortAudioError'')) = Inr ()"
    by (simp add: env_no_microphone_def env_ok_def)
  obtain w' where 3: "record_body env_ok audio_file 7
      (logged (Call_record_urdu_audio audio_file 7) blank) = (Inr True, w')"
    by (simp add: eval_defs)
  show ?thesis
    using record_raises_only_from_handler_print [of env_no_microphone audio_file 7 blank]
      record_raises_only_from_handler_print [of env_ok audio_file 7 blank]
    by (simp add: 1 2 3) (simp add: logged_def)
qed










section \<open>The input of the translation\<close>

text \<open>
  C1: for the argument \<open>None\<close> and for every string of fewer than 3 characters (the
  empty string among them), \<open>translate_urdu\<close> returns \<open>None\<close>, and its entry is all
  that the log gains: neither the tokenizer nor the translation model is called.
\<close>

theorem translate_rejects_short:
  "(case urdu_text of None \<Rightarrow> True | Some s \<Rightarrow> length s < 3) \<Longrightarrow>
     translate_urdu env urdu_text w = (Inr None, logged (Call_translate_urdu urdu_text) w)"
  by (auto simp: translate_urdu_def stage_run translate_body_def run_simps split: option.splits)

text \<open>The arguments \<open>None\<close>, the empty string and a word of two characters.\<close>

theorem translate_rejects_short_witness:
  "translate_urdu env_ok None blank = (Inr None, logged (Call_translate_urdu None) blank) \<and>
   translate_urdu env_ok (Some []) blank = (Inr None, logged (Call_translate_urdu (Some [])) blank) \<and>
   length word_hai < 3 \<and>
   translate_urdu env_ok (Some word_hai) blank =
     (Inr None, \<lparr>trace = [Call_translate_urdu (Some word_hai)], files = {}\<rparr>)"
  using translate_rejects_short [of None env_ok blank]
    translate_rejects_short [of "Some []" env_ok blank]
    translate_rejects_short [of "Some word_hai" env_ok blank]
  by (simp add: word_hai_def logged_def blank_def)

lemma replace_single: "replace_from [a] [b] s = map (\<lambda>c. if c = a then b else c) s"
  by (induction s) auto

lemma set_replace_from: "set (replace_from old new s) \<subseteq> set s \<union> set new"
proof (induction old new s rule: replace_from.induct)
  case (1 old new)
  show ?case by simp
next
  case (2 old new c cs)
  show ?case
  proof (cases "old \<noteq> [] \<and> startswith old (c # cs)")
    case True
    have "set (drop (length old) (c # cs)) \<subseteq> set (c # cs)" by (rule set_drop_subset)
    with True "2.IH"(1) show ?thesis by auto
  next
    case False
    with "2.IH"(2) show ?thesis by auto
  qed
qed

lemma pad_step:
  "replace_from word_hai padded_hai (c # cs) =
     (if startswith word_hai (c # cs)
      then padded_hai @ replace_from word_hai padded_hai (drop (length word_hai) (c # cs))
      else c # replace_from word_hai padded_hai cs)"
proof -
  have "word_hai \<noteq> []" by (simp add: word_hai_def)
  then show ?thesis by (simp only: replace_from.simps(2) simp_thms)
qed

lemma pad_head:
  assumes "replace_from word_hai padded_hai cs = x # xs" and "x \<noteq> 32"
  shows "\<exists>cs'. cs = x # cs' \<and> xs = replace_from word_hai padded_hai cs' \<and> \<not> startswith word_hai cs"
proof (cases cs)
  case Nil
  with assms show ?thesis by simp
next
  case (Cons c cs')
  show ?thesis
  proof (cases "startswith word_hai (c # cs')")
    case True
    with assms Cons show ?thesis
      by (simp add: pad_step del: replace_from.simps) (simp add: padded_hai_def)
  next
    case False
    with assms Cons show ?thesis by (simp add: pad_step del: replace_from.simps)
  qed
qed

lemma startswith_hai: "startswith word_hai s \<longleftrightarrow> (\<exists>t. s = 1729 # 1746 # t)"
  by (cases s; cases "tl s") (auto simp: word_hai_def)

lemma padded_occurrence:
  "replace_from word_hai padded_hai t = u @ word_hai @ v \<Longrightarrow> \<exists>u' v'. u = u' @ [32] \<and> v = 32 # v'"
proof (induction t arbitrary: u rule: length_induct)
  case (1 t)
  show ?case
  proof (cases t)
    case Nil
    with "1.prems" show ?thesis by (simp add: word_hai_def)
  next
    case (Cons c cs)
    show ?thesis
    proof (cases "startswith word_hai (c # cs)")
      case True
      then obtain t' where t': "c # cs = 1729 # 1746 # t'" by (auto simp: startswith_hai)
      define X where "X = replace_from word_hai padded_hai t'"
      have eq: "[32, 1729, 1746, 32] @ X = u @ [1729, 1746] @ v"
        using "1.prems" Cons True t'
        by (simp add: pad_step del: replace_from.simps) (simp add: X_def padded_hai_def word_hai_def)
      have len: "length t' < length t" using Cons t' by simp
      consider "u = []" | "u = [32]" | "u = [32, 1729]" | "u = [32, 1729, 1746]"
        | u2 where "u = 32 # 1729 # 1746 # 32 # u2"
        using eq by (cases u; cases "tl u"; cases "tl (tl u)"; cases "tl (tl (tl u))") auto
      then show ?thesis
      proof cases
        case 5
        with eq have "X = u2 @ word_hai @ v" by (simp add: word_hai_def)
        with "1.IH" len obtain u' v' where "u2 = u' @ [32]" "v = 32 # v'"
          unfolding X_def by blast
        with 5 show ?thesis by simp
      qed (use eq in auto)
    next
      case False
      then have eq: "c # replace_from word_hai padded_hai cs = u @ word_hai @ v"
        using "1.prems" Cons by (simp add: pad_step del: replace_from.simps)
      show ?thesis
      proof (cases u)
        case Nil
        with eq have c: "c = 1729" and "replace_from word_hai padded_hai cs = 1746 # v"
          by (simp_all add: word_hai_def)
        then obtain cs' where "cs = 1746 # cs'" using pad_head [of cs 1746 v] by auto
        with c False show ?thesis by (simp add: startswith_hai)
      next
        case (Cons c' u1)
        with eq have "replace_from word_hai padded_hai cs = u1 @ word_hai @ v" by simp
        moreover have "length cs < length t" using \<open>t = c # cs\<close> by simp
        ultimately obtain u' v' where "u1 = u' @ [32]" "v = 32 # v'"
          using "1.IH" by blast
        with Cons show ?thesis by simp
      qed
    qed
  qed
qed

lemma unpad_step:
  "replace_from padded_hai word_hai (c # cs) =
     (if startswith padded_hai (c # cs)
      then word_hai @ replace_from padded_hai word_hai (drop (length padded_hai) (c # cs))
      else c # replace_from padded_hai word_hai cs)"
proof -
  have "padded_hai \<noteq> []" by (simp add: padded_hai_def)
  then show ?thesis by (simp only: replace_from.simps(2) simp_thms)
qed

lemma unpad_pad: "replace_from padded_hai word_hai (replace_from word_hai padded_hai t) = t"
proof (induction t rule: length_induct)
  case (1 t)
  show ?case
  proof (cases t)
    case Nil
    then show ?thesis by simp
  next
    case (Cons c cs)
    show ?thesis
    proof (cases "startswith word_hai (c # cs)")
      case True
      then obtain t' where t': "c # cs = 1729 # 1746 # t'" by (auto simp: startswith_hai)
      have "length t' < length t" using Cons t' by simp
      with "1.IH" have "replace_from padded_hai word_hai (replace_from word_hai padded_hai t') = t'"
        by blast
      moreover have "replace_from word_hai padded_hai t =
          padded_hai @ replace_from word_hai padded_hai t'"
        using Cons True t' by (simp add: pad_step del: replace_from.simps) (simp add: word_hai_def)
      moreover have "replace_from padded_hai word_hai (padded_hai @ Y) =
          word_hai @ replace_from padded_hai word_hai Y" for Y
        by (simp add: padded_hai_def)
      ultimately show ?thesis using Cons t' by (simp add: word_hai_def)
    next
      case False
      define X where "X = replace_from word_hai padded_hai cs"
      have "\<not> startswith padded_hai (c # X)"
      proof
        assume "startswith padded_hai (c # X)"
        then obtain X1 where X: "X = 1729 # 1746 # 32 # X1"
          by (cases X; cases "tl X"; cases "tl (tl X)") (auto simp: padded_hai_def)
        then obtain cs' where cs: "cs = 1729 # cs'"
          and X': "1746 # 32 # X1 = replace_from word_hai padded_hai cs'"
          and no: "\<not> startswith word_hai cs"
          using pad_head [of cs 1729 "1746 # 32 # X1"] unfolding X_def by auto
        from X' obtain cs'' where "cs' = 1746 # cs''"
          using pad_head [of cs' 1746 "32 # X1"] by auto
        with cs no show False by (simp add: startswith_hai)
      qed
      moreover have "replace_from padded_hai word_hai X = cs"
        using "1.IH" Cons unfolding X_def by simp
      ultimately show ?thesis using Cons False
        by (simp add: pad_step unpad_step X_def del: replace_from.simps)
    qed
  qed
qed

lemma preprocess_map:
  "preprocess s = replace_from word_hai padded_hai (map (\<lambda>c. if c = 1748 then 46 else c) s)"
  by (simp add: preprocess_def replace_py_def urdu_full_stop_def latin_period_def replace_single
      word_hai_def)

lemma no_full_stop: "1748 \<notin> set (preprocess s)"
proof -
  have "set (preprocess s) \<subseteq>
      set (map (\<lambda>c. if c = 1748 then 46 else c) s) \<union> set padded_hai"
    unfolding preprocess_map by (rule set_replace_from)
  then show ?thesis by (auto simp: padded_hai_def split: if_splits)
qed

lemma tokenizer_first:
  "3 \<le> length s \<Longrightarrow>
     \<exists>evs. trace (snd (translate_urdu env (Some s) w)) =
       trace w @ [Call_translate_urdu (Some s), Tokenizer_encode (preprocess s)] @ evs"
  by (auto simp: translate_urdu_def stage_run translate_body_def run_simps logged_simps
      split: sum.splits prod.splits)

text \<open>
  C9: for every input of at least 3 characters, the first library call of
  \<open>translate_urdu\<close> is the tokenizer, on the pre-processed text. In that text every
  Urdu full stop (U+06D4) of the input has become a Latin period and none is left,
  every occurrence of the word U+06C1 U+06D2 has one space before it and one
  after it, and taking the padded word back to the bare word gives the input with its
  full stops replaced: the padding is all that was added.
\<close>

theorem preprocess_before_tokenizer:
  "3 \<le> length s \<Longrightarrow>
     (\<exists>evs. trace (snd (translate_urdu env (Some s) w)) =
        trace w @ [Call_translate_urdu (Some s), Tokenizer_encode (preprocess s)] @ evs) \<and>
     preprocess s =
       replace_py (map (\<lambda>c. if c = 1748 then 46 else c) s) word_hai padded_hai \<and>
     1748 \<notin> set (preprocess s) \<and>
     (\<forall>u v. preprocess s = u @ word_hai @ v \<longrightarrow> (\<exists>u' v'. u = u' @ [32] \<and> v = 32 # v')) \<and>
     replace_py (preprocess s) padded_hai word_hai = map (\<lambda>c. if c = 1748 then 46 else c) s"
proof (intro conjI allI impI)
  assume "3 \<le> length s"
  then show "\<exists>evs. trace (snd (translate_urdu env (Some s) w)) =
        trace w @ [Call_translate_urdu (Some s), Tokenizer_encode (preprocess s)] @ evs"
    by (rule tokenizer_first)
next
  show "preprocess s =
       replace_py (map (\<lambda>c. if c = 1748 then 46 else c) s) word_hai padded_hai"
    by (simp add: preprocess_map replace_py_def word_hai_def)
next
  show "1748 \<notin> set (preprocess s)" by (rule no_full_stop)
next
  fix u v
  assume "preprocess s = u @ word_hai @ v"
  then show "\<exists>u' v'. u = u' @ [32] \<and> v = 32 # v'"
    unfolding preprocess_map by (rule padded_occurrence)
next
  have "padded_hai \<noteq> []" by (simp add: padded_hai_def)
  then show "replace_py (preprocess s) padded_hai word_hai =
      map (\<lambda>c. if c = 1748 then 46 else c) s"
    by (simp add: preprocess_map replace_py_def unpad_pad)
qed

text \<open>A sentence of seven characters that ends in the word and a full stop.\<close>

theorem preprocess_before_tokenizer_witness:
  "3 \<le> length [1605, 1740, 1722, 32, 1729, 1746, 1748::nat] \<and>
   preprocess [1605, 1740, 1722, 32, 1729, 1746, 1748] =
     [1605, 1740, 1722, 32, 32, 1729, 1746, 32, 46] \<and>
   (\<exists>evs. trace (snd (translate_urdu env_ok (Some [1605, 1740, 1722, 32, 1729, 1746, 1748]) blank)) =
      [Call_translate_urdu (Some [1605, 1740, 1722, 32, 1729, 1746, 1748]),
       Tokenizer_encode [1605, 1740, 1722, 32, 32, 1729, 1746, 32, 46]] @ evs)"
proof -
  define s where "s = [1605, 1740, 1722, 32, 1729, 1746, 1748::nat]"
  have len: "3 \<le> length s" by (simp add: s_def)
  have p: "preprocess s = [1605, 1740, 1722, 32, 32, 1729, 1746, 32, 46]"
    by (simp add: s_def preprocess_def replace_py_def urdu_full_stop_def latin_period_def
        word_hai_def padded_hai_def)
  have "\<exists>evs. trace (snd (translate_urdu env_ok (Some s) blank)) =
      trace blank @ [Call_translate_urdu (Some s), Tokenizer_encode (preprocess s)] @ evs"
    using preprocess_before_tokenizer [of s env_ok blank] len by blast
  then have "\<exists>evs. trace (snd (translate_urdu env_ok (Some s) blank)) =
      [Call_translate_urdu (Some s), Tokenizer_encode (preprocess s)] @ evs"
    by (simp add: blank_def)
  with len p show ?thesis unfolding s_def by simp
qed

section \<open>The pipeline\<close>

lemma main_run:
  assumes "record_urdu_audio env audio_file 7 w = (Inr b, w1)"
    and "transcribe_urdu env audio_file (logged (Print Transcribing) w1) = (Inr t, w2)"
    and "translate_urdu env t (logged (Print Translating) (logged (Print (Urdu_is (the t))) w2)) =
           (Inr e, w3)"
  shows "main env w =
     (if \<not> b then (Inr (), w1)
      else if falsy t then (Inr (), w2)
      else if falsy e then (Inr (), w3)
      else speak_and_cleanup env (the e) w3)"
  using assms by (simp add: main_def run_simps)

lemma speak_and_cleanup_run:
  "speak_and_cleanup env en w =
     (case tts_say env en of
        Inl x \<Rightarrow> (Inl x, logged (Tts_say en) (logged (Print Speaking) (logged (Print (English_is en)) w)))
      | Inr _ \<Rightarrow>
         (case tts_runAndWait env of
            Inl x \<Rightarrow> (Inl x, logged Tts_runAndWait (logged (Tts_say en)
                       (logged (Print Speaking) (logged (Print (English_is en)) w))))
          | Inr _ \<Rightarrow> os_remove audio_file (logged Tts_runAndWait (logged (Tts_say en)
                       (logged (Print Speaking) (logged (Print (English_is en)) w))))))"
  by (simp add: speak_and_cleanup_def run_simps split: sum.splits)

lemma main_raises:
  "record_urdu_audio env audio_file 7 w = (Inl x, w1) \<Longrightarrow> main env w = (Inl x, w1)"
  "record_urdu_audio env audio_file 7 w = (Inr True, w1) \<Longrightarrow>
   transcribe_urdu env audio_file (logged (Print Transcribing) w1) = (Inl x, w2) \<Longrightarrow>
     main env w = (Inl x, w2)"
  "record_urdu_audio env audio_file 7 w = (Inr True, w1) \<Longrightarrow>
   transcribe_urdu env audio_file (logged (Print Transcribing) w1) = (Inr t, w2) \<Longrightarrow>
   \<not> falsy t \<Longrightarrow>
   translate_urdu env t (logged (Print Translating) (logged (Print (Urdu_is (the t))) w2)) =
     (Inl x, w3) \<Longrightarrow>
     main env w = (Inl x, w3)"
  by (simp_all add: main_def run_simps)

lemma record_any:
  assumes "record_urdu_audio env audio_file 7 w = (r, w1)"
  shows "stage_calls (trace w1) = stage_calls (trace w) @ [Call_record_urdu_audio audio_file 7]"
    and "fst (record_urdu_audio env audio_file 7 blank) = r"
proof -
  show "stage_calls (trace w1) = stage_calls (trace w) @ [Call_record_urdu_audio audio_file 7]"
    using record_calls [of env audio_file 7 w] assms by simp
  show "fst (record_urdu_audio env audio_file 7 blank) = r"
    using record_blind [of env audio_file 7, unfolded world_blind_def, rule_format, of blank w]
      assms by simp
qed

lemma transcribe_any:
  assumes "transcribe_urdu env p w = (r, w2)"
  shows "stage_calls (trace w2) = stage_calls (trace w) @ [Call_transcribe_urdu p]"
    and "fst (transcribe_urdu env p blank) = r"
    and "files w2 = files w"
proof -
  show "stage_calls (trace w2) = stage_calls (trace w) @ [Call_transcribe_urdu p]"
    using transcribe_calls [of env p w] assms by simp
  show "fst (transcribe_urdu env p blank) = r"
    using transcribe_blind [of env p, unfolded world_blind_def, rule_format, of blank w]
      assms by simp
  show "files w2 = files w"
    using transcribe_files [of env p w] assms by simp
qed

lemma translate_any:
  assumes "translate_urdu env t w = (r, w3)"
  shows "stage_calls (trace w3) = stage_calls (trace w) @ [Call_translate_urdu t]"
    and "fst (translate_urdu env t blank) = r"
    and "files w3 = files w"
proof -
  show "stage_calls (trace w3) = stage_calls (trace w) @ [Call_translate_urdu t]"
    using translate_calls [of env t w] assms by simp
  show "fst (translate_urdu env t blank) = r"
    using translate_blind [of env t, unfolded world_blind_def, rule_format, of blank w]
      assms by simp
  show "files w3 = files w"
    using translate_files [of env t w] assms by simp
qed

lemma record_facts:
  assumes "record_urdu_audio env audio_file 7 w = (Inr b, w1)"
  shows "stage_calls (trace w1) = stage_calls (trace w) @ [Call_record_urdu_audio audio_file 7]"
    and "fst (record_urdu_audio env audio_file 7 blank) = Inr b"
    and "b \<Longrightarrow> audio_file \<in> files w1"
proof -
  show "stage_calls (trace w1) = stage_calls (trace w) @ [Call_record_urdu_audio audio_file 7]"
    using record_calls [of env audio_file 7 w] assms by simp
  show "fst (record_urdu_audio env audio_file 7 blank) = Inr b"
    using record_blind [of env audio_file 7, unfolded world_blind_def, rule_format, of blank w]
      assms by simp
  show "audio_file \<in> files w1" if b
  proof -
    have "record_urdu_audio env audio_file 7 w =
        (case record_body env audio_file 7 (logged (Call_record_urdu_audio audio_file 7) w) of
          (Inl e, w') \<Rightarrow>
            (case console env (Recording_failed e) of
               Inl e' \<Rightarrow> (Inl e', logged (Print (Recording_failed e)) w')
             | Inr u \<Rightarrow> (Inr False, logged (Print (Recording_failed e)) w'))
        | (Inr x, w') \<Rightarrow> (Inr x, w'))"
      by (simp add: record_urdu_audio_def stage_run)
    with assms that
    have "record_body env audio_file 7 (logged (Call_record_urdu_audio audio_file 7) w) =
        (Inr True, w1)"
      by (auto split: prod.splits sum.splits)
    then show ?thesis
      using record_body_file [of audio_file env 7] by (auto simp: ensures_def)
  qed
qed

lemma transcribe_facts:
  assumes "transcribe_urdu env p w = (Inr t, w2)"
  shows "stage_calls (trace w2) = stage_calls (trace w) @ [Call_transcribe_urdu p]"
    and "fst (transcribe_urdu env p blank) = Inr t"
    and "files w2 = files w"
proof -
  show "stage_calls (trace w2) = stage_calls (trace w) @ [Call_transcribe_urdu p]"
    using transcribe_calls [of env p w] assms by simp
  show "fst (transcribe_urdu env p blank) = Inr t"
    using transcribe_blind [of env p, unfolded world_blind_def, rule_format, of blank w]
      assms by simp
  show "files w2 = files w"
    using transcribe_files [of env p w] assms by simp
qed

lemma translate_facts:
  assumes "translate_urdu env t w = (Inr e, w3)"
  shows "stage_calls (trace w3) = stage_calls (trace w) @ [Call_translate_urdu t]"
    and "fst (translate_urdu env t blank) = Inr e"
    and "files w3 = files w"
proof -
  show "stage_calls (trace w3) = stage_calls (trace w) @ [Call_translate_urdu t]"
    using translate_calls [of env t w] assms by simp
  show "fst (translate_urdu env t blank) = Inr e"
    using translate_blind [of env t, unfolded world_blind_def, rule_format, of blank w]
      assms by simp
  show "files w3 = files w"
    using translate_files [of env t w] assms by simp
qed

lemma stage_call_mem: "is_stage_call ev \<Longrightarrow> ev \<in> set (stage_calls evs) \<longleftrightarrow> ev \<in> set evs"
  by (simp add: stage_calls_def)

text \<open>
  C5: when a stage returns its failure sentinel (\<open>False\<close> from the recording, \<open>None\<close>
  from the transcription or from the translation), \<open>main\<close> returns at once: the world
  it leaves is the world the failing stage left, and the stage calls of the log end
  with the failing stage, so that no later stage has been called.
\<close>

theorem abort_on_failure_sentinel:
  "(record_urdu_audio env audio_file 7 w = (Inr False, w1) \<longrightarrow>
      main env w = (Inr (), w1) \<and>
      stage_calls (trace w1) = stage_calls (trace w) @ [Call_record_urdu_audio audio_file 7]) \<and>
   (record_urdu_audio env audio_file 7 w = (Inr True, w1) \<and>
    transcribe_urdu env audio_file (logged (Print Transcribing) w1) = (Inr None, w2) \<longrightarrow>
      main env w = (Inr (), w2) \<and>
      stage_calls (trace w2) = stage_calls (trace w) @
        [Call_record_urdu_audio audio_file 7, Call_transcribe_urdu audio_file]) \<and>
   (record_urdu_audio env audio_file 7 w = (Inr True, w1) \<and>
    transcribe_urdu env audio_file (logged (Print Transcribing) w1) = (Inr (Some u), w2) \<and>
    u \<noteq> [] \<and>
    translate_urdu env (Some u) (logged (Print Translating) (logged (Print (Urdu_is u)) w2)) =
      (Inr None, w3) \<longrightarrow>
      main env w = (Inr (), w3) \<and>
      stage_calls (trace w3) = stage_calls (trace w) @
        [Call_record_urdu_audio audio_file 7, Call_transcribe_urdu audio_file,
         Call_translate_urdu (Some u)])"
proof (intro conjI impI)
  assume "record_urdu_audio env audio_file 7 w = (Inr False, w1)"
  then show "main env w = (Inr (), w1)" by (simp add: main_def run_simps)
next
  assume "record_urdu_audio env audio_file 7 w = (Inr False, w1)"
  then show "stage_calls (trace w1) = stage_calls (trace w) @ [Call_record_urdu_audio audio_file 7]"
    by (rule record_facts(1))
next
  assume a: "record_urdu_audio env audio_file 7 w = (Inr True, w1) \<and>
    transcribe_urdu env audio_file (logged (Print Transcribing) w1) = (Inr None, w2)"
  then show "main env w = (Inr (), w2)" by (simp add: main_def run_simps falsy_def)
  from a show "stage_calls (trace w2) = stage_calls (trace w) @
        [Call_record_urdu_audio audio_file 7, Call_transcribe_urdu audio_file]"
    using record_facts(1) [of env w True w1]
      transcribe_facts(1) [of env audio_file "logged (Print Transcribing) w1" None w2]
    by (simp add: logged_simps stage_calls_simps)
next
  assume a: "record_urdu_audio env audio_file 7 w = (Inr True, w1) \<and>
    transcribe_urdu env audio_file (logged (Print Transcribing) w1) = (Inr (Some u), w2) \<and>
    u \<noteq> [] \<and>
    translate_urdu env (Some u) (logged (Print Translating) (logged (Print (Urdu_is u)) w2)) =
      (Inr None, w3)"
  then show "main env w = (Inr (), w3)" by (simp add: main_def run_simps falsy_def)
  from a show "stage_calls (trace w3) = stage_calls (trace w) @
        [Call_record_urdu_audio audio_file 7, Call_transcribe_urdu audio_file,
         Call_translate_urdu (Some u)]"
    using record_facts(1) [of env w True w1]
      transcribe_facts(1) [of env audio_file "logged (Print Transcribing) w1" "Some u" w2]
      translate_facts(1) [of env "Some u"
        "logged (Print Translating) (logged (Print (Urdu_is u)) w2)" None w3]
    by (simp add: logged_simps stage_calls_simps)
qed

text \<open>Runs without a capture device, with a failing recogniser and a failing translator.\<close>

theorem abort_on_failure_sentinel_witness:
  "fst (record_urdu_audio env_no_microphone audio_file 7 blank) = Inr False \<and>
   fst (main env_no_microphone blank) = Inr () \<and>
   stage_calls (trace (snd (main env_no_microphone blank))) =
     [Call_record_urdu_audio audio_file 7] \<and>
   fst (transcribe_urdu env_whisper_fails audio_file blank) = Inr None \<and>
   fst (main env_whisper_fails blank) = Inr () \<and>
   stage_calls (trace (snd (main env_whisper_fails blank))) =
     [Call_record_urdu_audio audio_file 7, Call_transcribe_urdu audio_file] \<and>
   fst (translate_urdu env_translator_fails (Some [1605, 1740, 1722, 32, 1729, 1746, 1748]) blank) =
     Inr None \<and>
   fst (main env_translator_fails blank) = Inr () \<and>
   stage_calls (trace (snd (main env_translator_fails blank))) =
     [Call_record_urdu_audio audio_file 7, Call_transcribe_urdu audio_file,
      Call_translate_urdu (Some [1605, 1740, 1722, 32, 1729, 1746, 1748])]"
proof -
  define a1 where "a1 = snd (record_urdu_audio env_no_microphone audio_file 7 blank)"
  define b1 where "b1 = snd (record_urdu_audio env_whisper_fails audio_file 7 blank)"
  define b2 where
    "b2 = snd (transcribe_urdu env_whisper_fails audio_file (logged (Print Transcribing) b1))"
  define u where "u = [1605, 1740, 1722, 32, 1729, 1746, 1748::nat]"
  define c1 where "c1 = snd (record_urdu_audio env_translator_fails audio_file 7 blank)"
  define c2 where
    "c2 = snd (transcribe_urdu env_translator_fails audio_file (logged (Print Transcribing) c1))"
  define c3 where
    "c3 = snd (translate_urdu env_translator_fails (Some u)
       (logged (Print Translating) (logged (Print (Urdu_is u)) c2)))"
  have a: "record_urdu_audio env_no_microphone audio_file 7 blank = (Inr False, a1)"
    unfolding a1_def by (simp add: eval_defs)
  have b: "record_urdu_audio env_whisper_fails audio_file 7 blank = (Inr True, b1)"
    "transcribe_urdu env_whisper_fails audio_file (logged (Print Transcribing) b1) = (Inr None, b2)"
    unfolding b1_def b2_def by (simp_all add: eval_defs)
  have c: "record_urdu_audio env_translator_fails audio_file 7 blank = (Inr True, c1)"
    "transcribe_urdu env_translator_fails audio_file (logged (Print Transcribing) c1) =
       (Inr (Some u), c2)"
    "u \<noteq> []"
    "translate_urdu env_translator_fails (Some u)
       (logged (Print Translating) (logged (Print (Urdu_is u)) c2)) = (Inr None, c3)"
    unfolding c1_def c2_def c3_def u_def by (simp_all add: eval_defs)
  have v: "fst (record_urdu_audio env_no_microphone audio_file 7 blank) = Inr False"
    "fst (transcribe_urdu env_whisper_fails audio_file blank) = Inr None"
    "fst (translate_urdu env_translator_fails (Some u) blank) = Inr None"
    unfolding u_def by (simp_all add: eval_defs)
  show ?thesis
    using abort_on_failure_sentinel [of env_no_microphone blank a1] a v
      abort_on_failure_sentinel [of env_whisper_fails blank b1 b2] b
      abort_on_failure_sentinel [of env_translator_fails blank c1 c2 u c3] c
    by (simp add: blank_def stage_calls_def u_def)
qed

text \<open>
  C10: an empty string from a stage is treated as the sentinel \<open>None\<close> is. When
  \<open>transcribe_urdu\<close> returns the empty string, \<open>main\<close> returns without calling the
  translation; when \<open>translate_urdu\<close> returns the empty string, \<open>main\<close> returns
  without calling the speech engine; in both cases the audio file is not removed.
\<close>

theorem falsy_result_aborts:
  "(record_urdu_audio env audio_file 7 w = (Inr True, w1) \<and>
    transcribe_urdu env audio_file (logged (Print Transcribing) w1) = (Inr (Some []), w2) \<longrightarrow>
      main env w = (Inr (), w2) \<and>
      stage_calls (trace w2) = stage_calls (trace w) @
        [Call_record_urdu_audio audio_file 7, Call_transcribe_urdu audio_file] \<and>
      audio_file \<in> files w2) \<and>
   (record_urdu_audio env audio_file 7 w = (Inr True, w1) \<and>
    transcribe_urdu env audio_file (logged (Print Transcribing) w1) = (Inr (Some u), w2) \<and>
    u \<noteq> [] \<and>
    translate_urdu env (Some u) (logged (Print Translating) (logged (Print (Urdu_is u)) w2)) =
      (Inr (Some []), w3) \<longrightarrow>
      main env w = (Inr (), w3) \<and>
      stage_calls (trace w3) = stage_calls (trace w) @
        [Call_record_urdu_audio audio_file 7, Call_transcribe_urdu audio_file,
         Call_translate_urdu (Some u)] \<and>
      audio_file \<in> files w3)"
proof (intro conjI impI)
  assume a: "record_urdu_audio env audio_file 7 w = (Inr True, w1) \<and>
    transcribe_urdu env audio_file (logged (Print Transcribing) w1) = (Inr (Some []), w2)"
  then show "main env w = (Inr (), w2)" by (simp add: main_def run_simps falsy_def)
  from a show "stage_calls (trace w2) = stage_calls (trace w) @
        [Call_record_urdu_audio audio_file 7, Call_transcribe_urdu audio_file]"
    using record_facts(1) [of env w True w1]
      transcribe_facts(1) [of env audio_file "logged (Print Transcribing) w1" "Some []" w2]
    by (simp add: logged_simps stage_calls_simps)
  from a show "audio_file \<in> files w2"
    using record_facts(3) [of env w True w1]
      transcribe_facts(3) [of env audio_file "logged (Print Transcribing) w1" "Some []" w2]
    by (simp add: logged_simps)
next
  assume a: "record_urdu_audio env audio_file 7 w = (Inr True, w1) \<and>
    transcribe_urdu env audio_file (logged (Print Transcribing) w1) = (Inr (Some u), w2) \<and>
    u \<noteq> [] \<and>
    translate_urdu env (Some u) (logged (Print Translating) (logged (Print (Urdu_is u)) w2)) =
      (Inr (Some []), w3)"
  then show "main env w = (Inr (), w3)" by (simp add: main_def run_simps falsy_def)
  from a show "stage_calls (trace w3) = stage_calls (trace w) @
        [Call_record_urdu_audio audio_file 7, Call_transcribe_urdu audio_file,
         Call_translate_urdu (Some u)]"
    using record_facts(1) [of env w True w1]
      transcribe_facts(1) [of env audio_file "logged (Print Transcribing) w1" "Some u" w2]
      translate_facts(1) [of env "Some u"
        "logged (Print Translating) (logged (Print (Urdu_is u)) w2)" "Some []" w3]
    by (simp add: logged_simps stage_calls_simps)
  from a show "audio_file \<in> files w3"
    using record_facts(3) [of env w True w1]
      transcribe_facts(3) [of env audio_file "logged (Print Transcribing) w1" "Some u" w2]
      translate_facts(3) [of env "Some u"
        "logged (Print Translating) (logged (Print (Urdu_is u)) w2)" "Some []" w3]
    by (simp add: logged_simps)
qed

text \<open>A recording of nothing but whitespace, and a translation that is empty.\<close>

theorem falsy_result_aborts_witness:
  "fst (transcribe_urdu env_blank_speech audio_file blank) = Inr (Some []) \<and>
   fst (main env_blank_speech blank) = Inr () \<and>
   stage_calls (trace (snd (main env_blank_speech blank))) =
     [Call_record_urdu_audio audio_file 7, Call_transcribe_urdu audio_file] \<and>
   audio_file \<in> files (snd (main env_blank_speech blank)) \<and>
   fst (translate_urdu env_empty_translation (Some [1605, 1740, 1722, 32, 1729, 1746, 1748]) blank) =
     Inr (Some []) \<and>
   fst (main env_empty_translation blank) = Inr () \<and>
   stage_calls (trace (snd (main env_empty_translation blank))) =
     [Call_record_urdu_audio audio_file 7, Call_transcribe_urdu audio_file,
      Call_translate_urdu (Some [1605, 1740, 1722, 32, 1729, 1746, 1748])] \<and>
   audio_file \<in> files (snd (main env_empty_translation blank))"
proof -
  define b1 where "b1 = snd (record_urdu_audio env_blank_speech audio_file 7 blank)"
  define b2 where
    "b2 = snd (transcribe_urdu env_blank_speech audio_file (logged (Print Transcribing) b1))"
  define u where "u = [1605, 1740, 1722, 32, 1729, 1746, 1748::nat]"
  define c1 where "c1 = snd (record_urdu_audio env_empty_translation audio_file 7 blank)"
  define c2 where
    "c2 = snd (transcribe_urdu env_empty_translation audio_file (logged (Print Transcribing) c1))"
  define c3 where
    "c3 = snd (translate_urdu env_empty_translation (Some u)
       (logged (Print Translating) (logged (Print (Urdu_is u)) c2)))"
  have b: "record_urdu_audio env_blank_speech audio_file 7 blank = (Inr True, b1)"
    "transcribe_urdu env_blank_speech audio_file (logged (Print Transcribing) b1) =
       (Inr (Some []), b2)"
    unfolding b1_def b2_def by (simp_all add: eval_defs)
  have c: "record_urdu_audio env_empty_translation audio_file 7 blank = (Inr True, c1)"
    "transcribe_urdu env_empty_translation audio_file (logged (Print Transcribing) c1) =
       (Inr (Some u), c2)"
    "u \<noteq> []"
    "translate_urdu env_empty_translation (Some u)
       (logged (Print Translating) (logged (Print (Urdu_is u)) c2)) = (Inr (Some []), c3)"
    unfolding c1_def c2_def c3_def u_def by (simp_all add: eval_defs)
  have v: "fst (transcribe_urdu env_blank_speech audio_file blank) = Inr (Some [])"
    "fst (translate_urdu env_empty_translation (Some u) blank) = Inr (Some [])"
    unfolding u_def by (simp_all add: eval_defs)
  show ?thesis
    using falsy_result_aborts [of env_blank_speech blank b1 b2] b
      falsy_result_aborts [of env_empty_translation blank c1 c2 u c3] c v
    by (simp add: blank_def stage_calls_def u_def)
qed

text \<open>
  C6: in a run of \<open>main\<close>, \<open>os.remove\<close> is called on the audio file if and only if
  every stage completes. When they all do, \<open>main\<close> returns normally and the file is
  gone. When one does not, nothing after the recording stage changes the files on
  disk, so a file the recording has written is still there.
\<close>

theorem cleanup_iff_all_stages_succeed:
  "(Os_remove audio_file \<in> set (trace (snd (main env (fresh disk)))) \<longleftrightarrow> all_stages_succeed env) \<and>
   (all_stages_succeed env \<longrightarrow>
      fst (main env (fresh disk)) = Inr () \<and> audio_file \<notin> files (snd (main env (fresh disk)))) \<and>
   (\<not> all_stages_succeed env \<longrightarrow>
      files (snd (main env (fresh disk))) =
        files (snd (record_urdu_audio env audio_file 7 (fresh disk)))) \<and>
   (\<not> all_stages_succeed env \<and> fst (record_urdu_audio env audio_file 7 (fresh disk)) = Inr True \<longrightarrow>
      audio_file \<in> files (snd (main env (fresh disk))))"
proof -
  define w where "w = fresh disk"
  obtain r1 w1 where rec: "record_urdu_audio env audio_file 7 w = (r1, w1)"
    by (cases "record_urdu_audio env audio_file 7 w")
  obtain r2 w2 where
    tr: "transcribe_urdu env audio_file (logged (Print Transcribing) w1) = (r2, w2)"
    by (cases "transcribe_urdu env audio_file (logged (Print Transcribing) w1)")
  have c1: "stage_calls (trace w1) = [Call_record_urdu_audio audio_file 7]"
    using record_any(1) [OF rec] by (simp add: w_def fresh_def stage_calls_simps)
  have c2: "stage_calls (trace w2) =
      [Call_record_urdu_audio audio_file 7, Call_transcribe_urdu audio_file]"
    using transcribe_any(1) [OF tr] c1 by (simp add: logged_simps stage_calls_simps)
  have f2: "files w2 = files w1"
    using transcribe_any(3) [OF tr] by (simp add: logged_simps)
  have v1: "fst (record_urdu_audio env audio_file 7 blank) = r1"
    and v2: "fst (transcribe_urdu env audio_file blank) = r2"
    using record_any(2) [OF rec] transcribe_any(2) [OF tr] by simp_all
  have no1: "Os_remove audio_file \<notin> set (trace w1)"
    using c1 stage_call_mem [of "Os_remove audio_file" "trace w1"] by simp
  have no2: "Os_remove audio_file \<notin> set (trace w2)"
    using c2 stage_call_mem [of "Os_remove audio_file" "trace w2"] by simp
  have goal:
    "(Os_remove audio_file \<in> set (trace (snd (main env w))) \<longleftrightarrow> all_stages_succeed env) \<and>
     (all_stages_succeed env \<longrightarrow>
        fst (main env w) = Inr () \<and> audio_file \<notin> files (snd (main env w))) \<and>
     (\<not> all_stages_succeed env \<longrightarrow> files (snd (main env w)) = files w1) \<and>
     (\<not> all_stages_succeed env \<and> r1 = Inr True \<longrightarrow> audio_file \<in> files (snd (main env w)))"
  proof (cases r1)
    case (Inl x)
    with main_raises(1) [of env w x w1] rec v1 no1 show ?thesis
      by (simp add: all_stages_succeed_def)
  next
    case r1: (Inr b)
    show ?thesis
    proof (cases b)
      case False
      with r1 rec v1 no1 show ?thesis
        by (simp add: all_stages_succeed_def main_def run_simps)
    next
      case True
      with r1 rec have rec': "record_urdu_audio env audio_file 7 w = (Inr True, w1)" by simp
      have here: "audio_file \<in> files w1" using record_facts(3) [OF rec'] by simp
      show ?thesis
      proof (cases r2)
        case (Inl x)
        with main_raises(2) [of env w w1 x w2] rec' tr v2 no2 f2 here show ?thesis
          by (simp add: all_stages_succeed_def)
      next
        case r2: (Inr t)
        with tr have tr': "transcribe_urdu env audio_file (logged (Print Transcribing) w1) =
            (Inr t, w2)" by simp
        show ?thesis
        proof (cases "falsy t")
          case True
          with rec' tr' r2 v2 no2 f2 here show ?thesis
            by (auto simp: all_stages_succeed_def main_def run_simps falsy_def
                split: option.splits)
        next
          case False
          then obtain u where t: "t = Some u" and u: "u \<noteq> []"
            by (auto simp: falsy_def split: option.splits)
          obtain r3 w3 where tl: "translate_urdu env t
              (logged (Print Translating) (logged (Print (Urdu_is (the t))) w2)) = (r3, w3)"
            by (cases "translate_urdu env t
              (logged (Print Translating) (logged (Print (Urdu_is (the t))) w2))")
          have c3: "stage_calls (trace w3) =
              [Call_record_urdu_audio audio_file 7, Call_transcribe_urdu audio_file,
               Call_translate_urdu t]"
            using translate_any(1) [OF tl] c2 by (simp add: logged_simps stage_calls_simps)
          have f3: "files w3 = files w1"
            using translate_any(3) [OF tl] f2 by (simp add: logged_simps)
          have v3: "fst (translate_urdu env t blank) = r3"
            using translate_any(2) [OF tl] by simp
          have no3: "Os_remove audio_file \<notin> set (trace w3)"
            using c3 stage_call_mem [of "Os_remove audio_file" "trace w3"] by simp
          show ?thesis
          proof (cases r3)
            case (Inl x)
            with main_raises(3) [of env w w1 t w2 x w3] rec' tr' tl False r2 t u v2 v3 no3 f3 here
            show ?thesis by (simp add: all_stages_succeed_def)
          next
            case r3: (Inr e)
            with tl have tl': "translate_urdu env t
                (logged (Print Translating) (logged (Print (Urdu_is (the t))) w2)) = (Inr e, w3)"
              by simp
            note run = main_run [OF rec' tr' tl']
            show ?thesis
            proof (cases "falsy e")
              case True
              with t u run r2 r3 v2 v3 no3 f3 here show ?thesis
                by (auto simp: all_stages_succeed_def falsy_def split: option.splits)
            next
              case False
              then obtain en where e: "e = Some en" and en: "en \<noteq> []"
                by (auto simp: falsy_def split: option.splits)
              have m: "main env w = speak_and_cleanup env en w3"
                using run t u e en by (simp add: falsy_def)
              have all: "all_stages_succeed env \<longleftrightarrow>
                  tts_say env en = Inr () \<and> tts_runAndWait env = Inr ()"
                using v1 v2 v3 r1 True r2 r3 t u e en by (simp add: all_stages_succeed_def)
              show ?thesis
              proof (cases "tts_say env en")
                case (Inl x)
                with m all no3 f3 here show ?thesis
                  by (simp add: speak_and_cleanup_run logged_simps)
              next
                case say: (Inr y)
                show ?thesis
                proof (cases "tts_runAndWait env")
                  case (Inl x)
                  with say m all no3 f3 here show ?thesis
                    by (simp add: speak_and_cleanup_run logged_simps)
                next
                  case (Inr z)
                  with say m all no3 f3 here show ?thesis
                    by (simp add: speak_and_cleanup_run logged_simps os_remove_def)
                qed
              qed
            qed
          qed
        qed
      qed
    qed
  qed
  have "fst (record_urdu_audio env audio_file 7 w) = r1"
    and "files (snd (record_urdu_audio env audio_file 7 w)) = files w1"
    using rec by simp_all
  with goal show ?thesis unfolding w_def by auto
qed

text \<open>A complete run, a run whose speech engine raises, and one whose recogniser raises.\<close>

theorem cleanup_iff_all_stages_succeed_witness:
  "all_stages_succeed env_ok \<and>
   Os_remove audio_file \<in> set (trace (snd (main env_ok (fresh {})))) \<and>
   fst (main env_ok (fresh {})) = Inr () \<and>
   audio_file \<notin> files (snd (main env_ok (fresh {}))) \<and>
   \<not> all_stages_succeed env_speaker_fails \<and>
   fst (record_urdu_audio env_speaker_fails audio_file 7 (fresh {})) = Inr True \<and>
   Os_remove audio_file \<notin> set (trace (snd (main env_speaker_fails (fresh {})))) \<and>
   audio_file \<in> files (snd (main env_speaker_fails (fresh {}))) \<and>
   \<not> all_stages_succeed env_whisper_fails \<and>
   audio_file \<in> files (snd (main env_whisper_fails (fresh {})))"
proof -
  have a: "all_stages_succeed env_ok"
    by (simp add: all_stages_succeed_def eval_defs)
  have b: "\<not> all_stages_succeed env_speaker_fails"
    "fst (record_urdu_audio env_speaker_fails audio_file 7 (fresh {})) = Inr True"
    by (simp_all add: all_stages_succeed_def eval_defs)
  have c: "\<not> all_stages_succeed env_whisper_fails"
    "fst (record_urdu_audio env_whisper_fails audio_file 7 (fresh {})) = Inr True"
    by (simp_all add: all_stages_succeed_def eval_defs)
  show ?thesis
    using cleanup_iff_all_stages_succeed [of env_ok "{}"] a
      cleanup_iff_all_stages_succeed [of env_speaker_fails "{}"] b
      cleanup_iff_all_stages_succeed [of env_whisper_fails "{}"] c
    by blast
qed

end
